theory Spec2Isabelle
  imports Main "HOL-Library.Word" "HOL-Library.Signed_Division"
begin

section \<open>collector/monitor.go: data model\<close>

text \<open>
  Go strings are byte sequences; \<^typ>\<open>string\<close> is a list of 8-bit characters, so
  \<open>len\<close> is \<^const>\<open>length\<close> and the slice \<open>s[:n]\<close> is \<^term>\<open>take n s\<close> when
  \<open>n \<le> len(s)\<close> (and a run-time panic otherwise).

  Go's \<open>int\<close> is taken at its width on 64-bit platforms: a 64-bit two's complement
  value, on which \<open>i++\<close> wraps around.
\<close>

type_synonym go_int = "64 word"

text \<open>The two fields of \<open>docker.Config\<close> and of \<open>docker.Container\<close> that the monitor reads.
  The pointers \<open>*docker.Container\<close> and \<open>Container.Config\<close> are taken to be non-nil whenever
  \<open>InspectContainer\<close> returns a nil error.\<close>

record Config =
  Env :: "string list"
  Image :: string

record Container =
  ID :: string
  Config :: Config

text \<open>Values of Go's \<open>error\<close> interface: the package's sentinel, or any other error
  (identified by its message). \<open>None\<close> of \<open>error option\<close> is the nil error.\<close>

datatype error = ErrNoNeedToMonitor | OtherError string

text \<open>Run-time panics of the Go code.\<close>

datatype fault = SliceBoundsOutOfRange | IntegerDivideByZero

datatype 'a outcome = Panic fault | Return 'a

text \<open>\<open>docker.StatsOptions\<close> as \<open>handle\<close> fills it; the channel \<open>Stats: in\<close> is not a field
  of the model: what the client sends on it is the first component of the call's result.\<close>

record StatsOptions =
  opt_ID :: string
  opt_Stream :: bool

text \<open>
  The interface \<open>MonitorDockerClient\<close>. \<open>'s\<close> is the type of a raw sample (\<open>docker.Stats\<close>).
  \<open>InspectContainer\<close> returns \<open>(container, nil)\<close> (here \<open>Inr\<close>) or \<open>(nil, err)\<close> (here
  \<open>Inl\<close>). The blocking call \<open>Stats(opts)\<close> sends
  a finite sequence of raw samples on the channel \<open>opts.Stats\<close>, closes it, and returns an
  error or nil: the model of the call is that sequence together with the returned error.
\<close>

record 's MonitorDockerClient =
  InspectContainer :: "string \<Rightarrow> error + Container"
  StatsCall :: "StatsOptions \<Rightarrow> 's list \<times> error option"

record 's Monitor =
  client :: "'s MonitorDockerClient"
  id' :: string
  app :: string
  task :: string
  interval :: go_int

text \<open>The struct \<open>Stats\<close> sent on the output channel.\<close>

record 's Stats =
  App :: string
  Task :: string
  Stats :: 's

section \<open>The package \<open>strings\<close>\<close>

definition HasPrefix :: "string \<Rightarrow> string \<Rightarrow> bool" where
  "HasPrefix s prefix = (length prefix \<le> length s \<and> take (length prefix) s = prefix)"

definition TrimPrefix :: "string \<Rightarrow> string \<Rightarrow> string" where
  "TrimPrefix s prefix = (if HasPrefix s prefix then drop (length prefix) s else s)"

text \<open>
  \<open>strings.Replace(s, old, new, n)\<close> for a non-empty \<open>old\<close>: scanning from the left, the
  first \<open>n\<close> non-overlapping occurrences of \<open>old\<close> are replaced by \<open>new\<close>, all of them
  when \<open>n < 0\<close>. (For an empty \<open>old\<close> Go inserts \<open>new\<close> at every rune boundary; the monitor
  never passes one, and the model returns \<open>s\<close> there.)
\<close>

function Replace :: "string \<Rightarrow> string \<Rightarrow> string \<Rightarrow> int \<Rightarrow> string" where
  "Replace s old new n =
     (if n = 0 \<or> old = [] \<or> s = [] then s
      else if HasPrefix s old then new @ Replace (drop (length old) s) old new (n - 1)
      else hd s # Replace (tl s) old new n)"
  by pat_completeness auto
termination
  by (relation "measure (\<lambda>(s, old, new, n). length s)") auto

declare Replace.simps [simp del]

section \<open>The package \<open>regexp\<close>, as far as \<open>imageNameRegex\<close> needs it\<close>

text \<open>
  A pattern is a sequence of nodes: one character of a class, a greedy star of a class, or
  the opening or closing parenthesis of a capture group. The classes are \<open>.\<close> (any
  character but the line feed), a literal, and the negated class \<open>[^c]\<close> (any character
  but \<open>c\<close>, the line feed included). Characters are bytes here and UTF-8 runes in Go; the
  literals of \<open>imageNameRegex\<close> and the line feed are ASCII, which never occur inside the
  encoding of another rune, so the positions found are the same.
\<close>

datatype cls = AnyChar | Lit char | NotLit char

datatype node = One cls | Star cls | GroupOpen | GroupClose

fun cls_match :: "cls \<Rightarrow> char \<Rightarrow> bool" where
  "cls_match AnyChar x = (x \<noteq> CHR 0x0A)"
| "cls_match (Lit c) x = (x = c)"
| "cls_match (NotLit c) x = (x \<noteq> c)"

text \<open>
  \<open>run p i s\<close> matches the pattern \<open>p\<close> at the front of \<open>s\<close>, the rest of the input from
  position \<open>i\<close>, the way a backtracking search does: a star first tries to take one more
  character and falls back to taking none. The result is the list of positions of the group
  parentheses met, and the position where the match ends. Go's \<open>regexp\<close> returns, among the
  matches that start leftmost, the one such a search finds first.
\<close>

fun run :: "node list \<Rightarrow> nat \<Rightarrow> string \<Rightarrow> (nat list \<times> nat) option" where
  "run [] i s = Some ([], i)"
| "run (GroupOpen # p) i s = map_option (\<lambda>(gs, e). (i # gs, e)) (run p i s)"
| "run (GroupClose # p) i s = map_option (\<lambda>(gs, e). (i # gs, e)) (run p i s)"
| "run (One c # p) i [] = None"
| "run (One c # p) i (x # xs) = (if cls_match c x then run p (Suc i) xs else None)"
| "run (Star c # p) i [] = run p i []"
| "run (Star c # p) i (x # xs) =
     (if cls_match c x
      then (case run (Star c # p) (Suc i) xs of
              Some r \<Rightarrow> Some r
            | None \<Rightarrow> run p i (x # xs))
      else run p i (x # xs))"

text \<open>The unanchored search: the leftmost start position at which the pattern matches.\<close>

fun search :: "node list \<Rightarrow> nat \<Rightarrow> string \<Rightarrow> (nat \<times> nat list \<times> nat) option" where
  "search p i [] = map_option (\<lambda>r. (i, r)) (run p i [])"
| "search p i (x # xs) =
     (case run p i (x # xs) of
        Some r \<Rightarrow> Some (i, r)
      | None \<Rightarrow> search p (Suc i) xs)"

definition slice :: "string \<Rightarrow> nat \<Rightarrow> nat \<Rightarrow> string" where
  "slice s a b = take (b - a) (drop a s)"

text \<open>\<open>re.FindStringSubmatch(s)\<close> for a pattern with one capture group: nil when there is
  no match, else the text of the match followed by the text of the group.\<close>

definition FindStringSubmatch :: "node list \<Rightarrow> string \<Rightarrow> string list option" where
  "FindStringSubmatch re s =
     (case search re 0 s of
        None \<Rightarrow> None
      | Some (b, gs, e) \<Rightarrow> Some (slice s b e # (case gs of [g0, g1] \<Rightarrow> [slice s g0 g1] | _ \<Rightarrow> [])))"

text \<open>\<^verbatim>\<open>regexp.MustCompile(`.*\/([^\/]*):.*`)\<close>\<close>

definition imageNameRegex :: "node list" where
  "imageNameRegex =
     [Star AnyChar, One (Lit CHR ''/''), GroupOpen, Star (NotLit CHR ''/''), GroupClose,
      One (Lit CHR '':''), Star AnyChar]"

section \<open>The monitor\<close>

definition sanitizeForGraphite :: "string \<Rightarrow> string" where
  "sanitizeForGraphite s = Replace (Replace s ''.'' ''_'' (- 1)) ''/'' ''_'' (- 1)"

text \<open>The loop of \<open>extractEnv\<close> over \<open>c.Config.Env\<close>.\<close>

fun extractEnv_loop :: "string list \<Rightarrow> string \<Rightarrow> string" where
  "extractEnv_loop [] envPrefix = ''''"
| "extractEnv_loop (e # es) envPrefix =
     (if HasPrefix e envPrefix then TrimPrefix e envPrefix else extractEnv_loop es envPrefix)"

definition extractEnv :: "Container \<Rightarrow> string \<Rightarrow> string" where
  "extractEnv c envVar = (let envPrefix = envVar @ ''='' in extractEnv_loop (Env (Config c)) envPrefix)"

definition extractApp :: "Container \<Rightarrow> string" where
  "extractApp c =
     (let app = extractEnv c ''CHRONOS_JOB_NAME'' in
      if app \<noteq> '''' then app
      else let app = extractEnv c ''MARATHON_APP_ID'' in
        if app \<noteq> '''' then TrimPrefix app ''/''
        else (case FindStringSubmatch imageNameRegex (Image (Config c)) of
                None \<Rightarrow> ''''
              | Some matches \<Rightarrow> if length matches < 1 then '''' else matches ! 0))"

text \<open>
  \<open>NewMonitor\<close> returns \<open>(nil, err)\<close> (here \<open>Inl err\<close>) or \<open>(&Monitor{...}, nil)\<close> (here
  \<open>Inr\<close>), or panics when the slice \<open>container.ID[:8]\<close> is out of range. The
  nil-pointer panic of \<open>c.Config.Env\<close> and \<open>c.Config.Image\<close>, for a client that returns a nil
  container or a container with a nil \<open>Config\<close> together with a nil error, is outside this
  definition: its \<open>Inr\<close> case is a container whose \<open>Config\<close> is present.
\<close>

definition NewMonitor ::
  "'s MonitorDockerClient \<Rightarrow> string \<Rightarrow> go_int \<Rightarrow> (error + 's Monitor) outcome" where
  "NewMonitor c ident ival =
     (case InspectContainer c ident of
        Inl err \<Rightarrow> Return (Inl err)
      | Inr container \<Rightarrow>
          (let app = sanitizeForGraphite (extractApp container) in
           if app = '''' then Return (Inl ErrNoNeedToMonitor)
           else if length (ID container) < 8 then Panic SliceBoundsOutOfRange
           else let task = sanitizeForGraphite (take 8 (ID container)) in
             Return (Inr \<lparr>client = c, id' = ID container, app = app, task = task,
                           interval = ival\<rparr>)))"

text \<open>Go's \<open>a % b\<close> on \<open>int\<close> for \<open>b \<noteq> 0\<close>: the remainder of the division truncated
  towards zero, with the sign of \<open>a\<close>. For \<open>b = 0\<close> Go panics: \<open>handle_loop\<close> tests
  \<open>interval m = 0\<close> before it takes the remainder.\<close>

definition go_rem :: "go_int \<Rightarrow> go_int \<Rightarrow> go_int" where
  "go_rem a b = word_of_int (sint a smod sint b)"

text \<open>
  The goroutine of \<open>handle\<close>: \<open>for s := range in\<close> with the counter \<open>i\<close>, over the samples
  that arrive on \<open>in\<close>. The result is the sequence of values sent on \<open>ch\<close> and the panic that
  stopped the loop, if any.
\<close>

fun handle_loop :: "'s Monitor \<Rightarrow> go_int \<Rightarrow> 's list \<Rightarrow> 's Stats list \<times> fault option" where
  "handle_loop m i [] = ([], None)"
| "handle_loop m i (s # ss) =
     (if interval m = 0 then ([], Some IntegerDivideByZero)
      else if go_rem i (interval m) \<noteq> 0 then handle_loop m (i + 1) ss
      else (case handle_loop m (i + 1) ss of
              (out, f) \<Rightarrow> (\<lparr>App = app m, Task = task m, Stats = s\<rparr> # out, f)))"

text \<open>
  \<open>handle\<close>: the goroutine runs on what \<open>m.client.Stats\<close> sends, and the value returned is
  the one that call returns. A panic of the goroutine ends the program. The consumer of
  \<open>ch\<close> is taken to receive every value sent.
\<close>

definition handle :: "'s Monitor \<Rightarrow> ('s Stats list \<times> error option) outcome" where
  "handle m =
     (case StatsCall (client m) \<lparr>opt_ID = id' m, opt_Stream = True\<rparr> of
        (samples, err) \<Rightarrow>
          (case handle_loop m 0 samples of
             (out, Some f) \<Rightarrow> Panic f
           | (out, None) \<Rightarrow> Return (out, err)))"

section \<open>Sanitization\<close>

lemma Replace_Nil [simp]: "Replace [] old new n = []"
  by (simp add: Replace.simps)

lemma Replace_char_Cons:
  "n < 0 \<Longrightarrow> Replace (x # xs) [c] new n =
     (if x = c then new @ Replace xs [c] new (n - 1) else x # Replace xs [c] new n)"
  by (subst Replace.simps) (simp add: HasPrefix_def)

lemma Replace_char_all:
  "n < 0 \<Longrightarrow> Replace s [c] new n = concat (map (\<lambda>x. if x = c then new else [x]) s)"
  by (induction s arbitrary: n) (simp_all add: Replace_char_Cons)

lemma sanitizeForGraphite_map:
  "sanitizeForGraphite s = map (\<lambda>x. if x = CHR ''.'' \<or> x = CHR ''/'' then CHR ''_'' else x) s"
  unfolding sanitizeForGraphite_def
  by (induction s) (simp_all add: Replace_char_all)

lemma sanitizeForGraphite_Nil_iff: "sanitizeForGraphite s = [] \<longleftrightarrow> s = []"
  by (simp add: sanitizeForGraphite_map)

text \<open>
  Claim C4. \<open>sanitizeForGraphite\<close> is a total function that replaces every \<open>.\<close> and every
  \<open>/\<close> of its argument by \<open>_\<close> and leaves the other characters as they are; its result
  contains neither \<open>.\<close> nor \<open>/\<close>, and sanitizing twice is the same as sanitizing once.
\<close>

theorem sanitizeForGraphite_total_idempotent:
  "sanitizeForGraphite s = map (\<lambda>x. if x = CHR ''.'' \<or> x = CHR ''/'' then CHR ''_'' else x) s
   \<and> CHR ''.'' \<notin> set (sanitizeForGraphite s)
   \<and> CHR ''/'' \<notin> set (sanitizeForGraphite s)
   \<and> sanitizeForGraphite (sanitizeForGraphite s) = sanitizeForGraphite s"
  by (auto simp add: sanitizeForGraphite_map)

section \<open>The matcher on \<open>imageNameRegex\<close>\<close>

lemma run_Lit_sound:
  "run (One (Lit a) # p) i s = Some r \<Longrightarrow> \<exists>xs. s = a # xs \<and> run p (Suc i) xs = Some r"
  by (cases s) (auto split: if_splits)

lemma run_Group_sound:
  "run (GroupOpen # p) i s = Some r \<Longrightarrow> \<exists>gs e. r = (i # gs, e) \<and> run p i s = Some (gs, e)"
  "run (GroupClose # p) i s = Some r \<Longrightarrow> \<exists>gs e. r = (i # gs, e) \<and> run p i s = Some (gs, e)"
  by auto

lemma run_Star_sound:
  "run (Star c # p) i s = Some r \<Longrightarrow>
     \<exists>xs ys. s = xs @ ys \<and> (\<forall>x\<in>set xs. cls_match c x) \<and> run p (i + length xs) ys = Some r"
proof (induction s arbitrary: i)
  case Nil
  then show ?case by simp
next
  case (Cons x s)
  show ?case
  proof (cases "cls_match c x \<and> run (Star c # p) (Suc i) s \<noteq> None")
    case True
    with Cons.prems have "run (Star c # p) (Suc i) s = Some r" by auto
    from Cons.IH [OF this] obtain xs ys where
      "s = xs @ ys" "\<forall>x\<in>set xs. cls_match c x" "run p (Suc i + length xs) ys = Some r"
      by blast
    with True have "x # s = (x # xs) @ ys \<and> (\<forall>y\<in>set (x # xs). cls_match c y)
        \<and> run p (i + length (x # xs)) ys = Some r"
      by simp
    then show ?thesis by blast
  next
    case False
    with Cons.prems have "run p i (x # s) = Some r" by (auto split: if_splits option.splits)
    then have "x # s = [] @ (x # s) \<and> (\<forall>y\<in>set []. cls_match c y)
        \<and> run p (i + length ([]::string)) (x # s) = Some r"
      by simp
    then show ?thesis by blast
  qed
qed

lemma run_Star_last:
  "run [Star c] j t = Some ([], j + length (takeWhile (cls_match c) t))"
  by (induction t arbitrary: j) simp_all

lemma run_Star_fallback:
  "run p i s \<noteq> None \<Longrightarrow> run (Star c # p) i s \<noteq> None"
  by (cases s) (auto split: option.splits)

lemma run_Star_complete:
  "\<forall>x\<in>set xs. cls_match c x \<Longrightarrow> run p (i + length xs) ys \<noteq> None \<Longrightarrow>
     run (Star c # p) i (xs @ ys) \<noteq> None"
proof (induction xs arbitrary: i)
  case Nil
  then show ?case by (simp add: run_Star_fallback)
next
  case (Cons x xs)
  from Cons.prems have "run (Star c # p) (Suc i) (xs @ ys) \<noteq> None"
    by (intro Cons.IH) simp_all
  with Cons.prems show ?case by auto
qed

lemma search_sound:
  "search p i s = Some (b, r) \<Longrightarrow>
     \<exists>pre s'. s = pre @ s' \<and> b = i + length pre \<and> run p b s' = Some r \<and>
       (\<forall>k < length pre. run p (i + k) (drop k s) = None)"
proof (induction s arbitrary: i)
  case Nil
  then show ?case by auto
next
  case (Cons x s)
  show ?case
  proof (cases "run p i (x # s)")
    case (Some r')
    with Cons.prems have "b = i" "r' = r" by auto
    with Some have "x # s = [] @ (x # s) \<and> b = i + length ([]::string) \<and> run p b (x # s) = Some r
       \<and> (\<forall>k < length ([]::string). run p (i + k) (drop k (x # s)) = None)"
      by simp
    then show ?thesis by blast
  next
    case None
    with Cons.prems have "search p (Suc i) s = Some (b, r)" by simp
    from Cons.IH [OF this] obtain pre s' where *:
      "s = pre @ s'" "b = Suc i + length pre" "run p b s' = Some r"
      "\<forall>k < length pre. run p (Suc i + k) (drop k s) = None"
      by blast
    have "\<forall>k < length (x # pre). run p (i + k) (drop k (x # s)) = None"
    proof (intro allI impI)
      fix k assume "k < length (x # pre)"
      then show "run p (i + k) (drop k (x # s)) = None"
        using None * by (cases k) auto
    qed
    with * have "x # s = (x # pre) @ s' \<and> b = i + length (x # pre) \<and> run p b s' = Some r
       \<and> (\<forall>k < length (x # pre). run p (i + k) (drop k (x # s)) = None)"
      by simp
    then show ?thesis by blast
  qed
qed

lemma search_complete:
  "run p (i + length pre) s' \<noteq> None \<Longrightarrow> search p i (pre @ s') \<noteq> None"
proof (induction pre arbitrary: i)
  case Nil
  then show ?case by (cases s') auto
next
  case (Cons x pre)
  from Cons.prems have "search p (Suc i) (pre @ s') \<noteq> None"
    by (intro Cons.IH) simp
  then show ?case by (auto split: option.splits)
qed

lemma search_first:
  "run p i s = Some r \<Longrightarrow> search p i s = Some (i, r)"
  by (cases s) auto

lemma run_imageNameRegex_sound:
  assumes "run imageNameRegex i s = Some (gs, e)"
  shows "\<exists>A B t. s = A @ CHR ''/'' # B @ CHR '':'' # t \<and> CHR 0x0A \<notin> set A \<and> CHR ''/'' \<notin> set B
           \<and> gs = [Suc (i + length A), Suc (i + length A + length B)]
           \<and> e = i + length A + length B + 2 + length (takeWhile (\<lambda>x. x \<noteq> CHR 0x0A) t)"
proof -
  let ?p6 = "[Star AnyChar]"
  let ?p5 = "One (Lit CHR '':'') # ?p6"
  let ?p3 = "Star (NotLit CHR ''/'') # GroupClose # ?p5"
  let ?p1 = "One (Lit CHR ''/'') # GroupOpen # ?p3"
  from assms have "run (Star AnyChar # ?p1) i s = Some (gs, e)"
    by (simp add: imageNameRegex_def)
  from run_Star_sound [OF this] obtain A s1 where
    A: "s = A @ s1" "\<forall>x\<in>set A. cls_match AnyChar x" and r1: "run ?p1 (i + length A) s1 = Some (gs, e)"
    by blast
  from run_Lit_sound [OF r1] obtain s2 where
    s1: "s1 = CHR ''/'' # s2" and r2: "run (GroupOpen # ?p3) (Suc (i + length A)) s2 = Some (gs, e)"
    by blast
  from run_Group_sound(1) [OF r2] obtain gs1 where
    gs: "gs = Suc (i + length A) # gs1" and r3: "run ?p3 (Suc (i + length A)) s2 = Some (gs1, e)"
    by blast
  from run_Star_sound [OF r3] obtain B s3 where
    B: "s2 = B @ s3" "\<forall>x\<in>set B. cls_match (NotLit CHR ''/'') x"
    and r4: "run (GroupClose # ?p5) (Suc (i + length A) + length B) s3 = Some (gs1, e)"
    by blast
  from run_Group_sound(2) [OF r4] obtain gs2 where
    gs1: "gs1 = (Suc (i + length A) + length B) # gs2"
    and r5: "run ?p5 (Suc (i + length A) + length B) s3 = Some (gs2, e)"
    by blast
  from run_Lit_sound [OF r5] obtain t where
    s3: "s3 = CHR '':'' # t" and r6: "run ?p6 (Suc (Suc (i + length A) + length B)) t = Some (gs2, e)"
    by blast
  from r6 have last: "gs2 = []"
    "e = Suc (Suc (i + length A) + length B) + length (takeWhile (cls_match AnyChar) t)"
    by (simp_all add: run_Star_last)
  have tw: "takeWhile (cls_match AnyChar) t = takeWhile (\<lambda>x. x \<noteq> CHR 0x0A) t"
    by (rule arg_cong [where f = "\<lambda>f. takeWhile f t"]) (rule ext, simp)
  have "s = A @ CHR ''/'' # B @ CHR '':'' # t" using A s1 B s3 by simp
  moreover have "CHR 0x0A \<notin> set A" using A(2) by auto
  moreover have "CHR ''/'' \<notin> set B" using B(2) by auto
  moreover have "gs = [Suc (i + length A), Suc (i + length A + length B)]"
    using gs gs1 last(1) by simp
  moreover have "e = i + length A + length B + 2 + length (takeWhile (\<lambda>x. x \<noteq> CHR 0x0A) t)"
    using last(2) tw by simp
  ultimately show ?thesis by blast
qed

lemma run_Star_only: "run [Star c] j t \<noteq> None"
  by (simp add: run_Star_last)

lemma run_imageNameRegex_complete:
  assumes "CHR 0x0A \<notin> set A" "CHR ''/'' \<notin> set B"
  shows "run imageNameRegex i (A @ CHR ''/'' # B @ CHR '':'' # t) \<noteq> None"
proof -
  let ?p6 = "[Star AnyChar]"
  let ?p5 = "One (Lit CHR '':'') # ?p6"
  let ?p3 = "Star (NotLit CHR ''/'') # GroupClose # ?p5"
  let ?p1 = "One (Lit CHR ''/'') # GroupOpen # ?p3"
  have "run ?p5 j (CHR '':'' # t) \<noteq> None" for j
    using run_Star_only [of AnyChar "Suc j" t] by simp
  then have "run (GroupClose # ?p5) j (CHR '':'' # t) \<noteq> None" for j
    by simp
  then have "run ?p3 j (B @ CHR '':'' # t) \<noteq> None" for j
    using assms(2) by (intro run_Star_complete) auto
  then have "run ?p1 j (CHR ''/'' # B @ CHR '':'' # t) \<noteq> None" for j
    by simp
  then have "run (Star AnyChar # ?p1) i (A @ CHR ''/'' # B @ CHR '':'' # t) \<noteq> None"
    using assms(1) by (intro run_Star_complete) auto
  then show ?thesis by (simp add: imageNameRegex_def)
qed

lemma FindStringSubmatch_Some_form:
  assumes "FindStringSubmatch imageNameRegex s = Some ms"
  shows "\<exists>pre A B C rest. s = pre @ A @ CHR ''/'' # B @ CHR '':'' # C @ rest
           \<and> ms = [A @ CHR ''/'' # B @ CHR '':'' # C, B]
           \<and> CHR 0x0A \<notin> set A \<and> CHR ''/'' \<notin> set B \<and> CHR 0x0A \<notin> set C
           \<and> (rest = [] \<or> hd rest = CHR 0x0A)"
proof -
  from assms obtain b gs e where
    sr: "search imageNameRegex 0 s = Some (b, gs, e)"
    and ms: "ms = slice s b e # (case gs of [g0, g1] \<Rightarrow> [slice s g0 g1] | _ \<Rightarrow> [])"
    by (auto simp add: FindStringSubmatch_def split: option.splits)
  from search_sound [OF sr] obtain pre s' where
    s: "s = pre @ s'" and b: "b = length pre" and r: "run imageNameRegex b s' = Some (gs, e)"
    by auto
  from run_imageNameRegex_sound [OF r] obtain A B t where
    s': "s' = A @ CHR ''/'' # B @ CHR '':'' # t" and A: "CHR 0x0A \<notin> set A" and B: "CHR ''/'' \<notin> set B"
    and gs: "gs = [Suc (b + length A), Suc (b + length A + length B)]"
    and e: "e = b + length A + length B + 2 + length (takeWhile (\<lambda>x. x \<noteq> CHR 0x0A) t)"
    by blast
  define C where "C = takeWhile (\<lambda>x. x \<noteq> CHR 0x0A) t"
  define rest where "rest = dropWhile (\<lambda>x. x \<noteq> CHR 0x0A) t"
  have t: "t = C @ rest" by (simp add: C_def rest_def)
  have C: "CHR 0x0A \<notin> set C" unfolding C_def by (auto dest: set_takeWhileD)
  have rest: "rest = [] \<or> hd rest = CHR 0x0A"
    unfolding rest_def using hd_dropWhile [of "\<lambda>x. x \<noteq> CHR 0x0A" t] by auto
  have full: "s = pre @ A @ CHR ''/'' # B @ CHR '':'' # C @ rest"
    using s s' t by simp
  have m0: "slice s b e = A @ CHR ''/'' # B @ CHR '':'' # C"
  proof -
    have "e - b = length (A @ CHR ''/'' # B @ CHR '':'' # C)"
      using e by (simp add: C_def)
    moreover have "drop b s = (A @ CHR ''/'' # B @ CHR '':'' # C) @ rest"
      using full b by simp
    ultimately show ?thesis
      unfolding slice_def by (metis append_eq_conv_conj)
  qed
  have m1: "slice s (Suc (b + length A)) (Suc (b + length A + length B)) = B"
  proof -
    have "s = (pre @ A @ [CHR ''/'']) @ B @ CHR '':'' # C @ rest"
      using full by simp
    moreover have "length (pre @ A @ [CHR ''/'']) = Suc (b + length A)"
      using b by simp
    ultimately have "drop (Suc (b + length A)) s = B @ CHR '':'' # C @ rest"
      by (metis append_eq_conv_conj)
    then show ?thesis by (simp add: slice_def)
  qed
  have "ms = [A @ CHR ''/'' # B @ CHR '':'' # C, B]"
    using ms gs m0 m1 by simp
  with full A B C rest show ?thesis by blast
qed

lemma FindStringSubmatch_None_iff:
  "FindStringSubmatch imageNameRegex s = None \<longleftrightarrow>
     \<not> (\<exists>path name rest. s = path @ CHR ''/'' # name @ CHR '':'' # rest \<and> CHR ''/'' \<notin> set name)"
proof
  assume n: "FindStringSubmatch imageNameRegex s = None"
  show "\<not> (\<exists>path name rest. s = path @ CHR ''/'' # name @ CHR '':'' # rest \<and> CHR ''/'' \<notin> set name)"
  proof
    assume "\<exists>path name rest. s = path @ CHR ''/'' # name @ CHR '':'' # rest \<and> CHR ''/'' \<notin> set name"
    then obtain path name rest where
      s: "s = path @ CHR ''/'' # name @ CHR '':'' # rest" and nm: "CHR ''/'' \<notin> set name"
      by blast
    have "run imageNameRegex (0 + length path) ([] @ CHR ''/'' # name @ CHR '':'' # rest) \<noteq> None"
      by (rule run_imageNameRegex_complete) (simp_all add: nm)
    then have "search imageNameRegex 0 (path @ CHR ''/'' # name @ CHR '':'' # rest) \<noteq> None"
      by (intro search_complete) simp
    with n s show False
      by (auto simp add: FindStringSubmatch_def split: option.splits)
  qed
next
  assume no: "\<not> (\<exists>path name rest. s = path @ CHR ''/'' # name @ CHR '':'' # rest \<and> CHR ''/'' \<notin> set name)"
  show "FindStringSubmatch imageNameRegex s = None"
  proof (rule ccontr)
    assume "FindStringSubmatch imageNameRegex s \<noteq> None"
    then obtain ms where "FindStringSubmatch imageNameRegex s = Some ms" by auto
    from FindStringSubmatch_Some_form [OF this] obtain pre A B C rest where
      "s = pre @ A @ CHR ''/'' # B @ CHR '':'' # C @ rest" "CHR ''/'' \<notin> set B"
      by blast
    then have "s = (pre @ A) @ CHR ''/'' # B @ CHR '':'' # (C @ rest) \<and> CHR ''/'' \<notin> set B"
      by simp
    with no show False by blast
  qed
qed

lemma FindStringSubmatch_whole:
  assumes nl: "CHR 0x0A \<notin> set s"
    and s: "s = path @ CHR ''/'' # name @ CHR '':'' # rest" and nm: "CHR ''/'' \<notin> set name"
  shows "\<exists>B. FindStringSubmatch imageNameRegex s = Some [s, B]"
proof -
  have "run imageNameRegex 0 s \<noteq> None"
    unfolding s using nl nm by (intro run_imageNameRegex_complete) (simp_all add: s)
  then obtain gs e where r: "run imageNameRegex 0 s = Some (gs, e)" by auto
  then have sr: "search imageNameRegex 0 s = Some (0, gs, e)" by (rule search_first)
  from run_imageNameRegex_sound [OF r] obtain A B t where
    s': "s = A @ CHR ''/'' # B @ CHR '':'' # t"
    and gs: "gs = [Suc (0 + length A), Suc (0 + length A + length B)]"
    and e: "e = 0 + length A + length B + 2 + length (takeWhile (\<lambda>x. x \<noteq> CHR 0x0A) t)"
    by blast
  have "CHR 0x0A \<notin> set t" using nl s' by (metis Un_iff list.set_intros(2) set_append)
  then have "takeWhile (\<lambda>x. x \<noteq> CHR 0x0A) t = t"
    by (intro takeWhile_eq_all_conv [THEN iffD2]) auto
  with e have e': "e = length s" by (subst s') simp
  have m0: "slice s 0 e = s" by (simp add: slice_def e')
  have "FindStringSubmatch imageNameRegex s = Some [s, slice s (Suc (length A)) (Suc (length A + length B))]"
    using sr gs m0 by (simp add: FindStringSubmatch_def)
  then show ?thesis by blast
qed

section \<open>Identity resolution\<close>

lemma extractEnv_loop_first:
  "\<forall>e\<in>set pre. \<not> HasPrefix e p \<Longrightarrow> extractEnv_loop (pre @ (p @ v) # post) p = v"
  by (induction pre) (auto simp add: HasPrefix_def TrimPrefix_def)

lemma extractEnv_first:
  "Env (Config c) = pre @ (k @ ''='' @ v) # post \<Longrightarrow> \<forall>e\<in>set pre. \<not> HasPrefix e (k @ ''='') \<Longrightarrow>
     extractEnv c k = v"
  using extractEnv_loop_first [of pre "k @ ''=''" v post]
  by (simp add: extractEnv_def)

lemma extractEnv_loop_absent:
  "\<forall>e\<in>set es. \<not> HasPrefix e p \<Longrightarrow> extractEnv_loop es p = []"
  by (induction es) simp_all

lemma extractEnv_absent:
  "\<forall>e\<in>set (Env (Config c)). \<not> HasPrefix e (k @ ''='') \<Longrightarrow> extractEnv c k = []"
  by (simp add: extractEnv_def extractEnv_loop_absent)

lemma extractApp_image:
  "extractEnv c ''CHRONOS_JOB_NAME'' = [] \<Longrightarrow> extractEnv c ''MARATHON_APP_ID'' = [] \<Longrightarrow>
     extractApp c = (case FindStringSubmatch imageNameRegex (Image (Config c)) of
                       None \<Rightarrow> [] | Some ms \<Rightarrow> if length ms < 1 then [] else ms ! 0)"
  by (simp add: extractApp_def)

text \<open>
  Claim C2. When the lookups of \<open>CHRONOS_JOB_NAME\<close> and of \<open>MARATHON_APP_ID\<close> both give the
  empty string, \<open>extractApp\<close> takes the label from the image reference. The pattern
  matches exactly when the reference has the form \<open>path/name:rest\<close> with no \<open>/\<close> in
  \<open>name\<close>. Then the label is \<open>matches[0]\<close>, the whole text of the match and not the
  captured name: a part \<open>A/B:C\<close> of the reference with no line feed in \<open>A\<close> and \<open>C\<close> and
  no \<open>/\<close> in \<open>B\<close>, running to the end of the line; for a reference without a line feed it
  is the whole reference, registry path and tag included. When the pattern does not match,
  the label is empty.
\<close>

theorem extractApp_from_image:
  assumes "extractEnv c ''CHRONOS_JOB_NAME'' = []" and "extractEnv c ''MARATHON_APP_ID'' = []"
  shows
    "((\<exists>path name rest. Image (Config c) = path @ CHR ''/'' # name @ CHR '':'' # rest
          \<and> CHR ''/'' \<notin> set name) \<longrightarrow>
        (\<exists>pre A B C rest. Image (Config c) = pre @ A @ CHR ''/'' # B @ CHR '':'' # C @ rest
           \<and> extractApp c = A @ CHR ''/'' # B @ CHR '':'' # C
           \<and> CHR 0x0A \<notin> set A \<and> CHR ''/'' \<notin> set B \<and> CHR 0x0A \<notin> set C
           \<and> (rest = [] \<or> hd rest = CHR 0x0A)))
     \<and> ((\<exists>path name rest. Image (Config c) = path @ CHR ''/'' # name @ CHR '':'' # rest
          \<and> CHR ''/'' \<notin> set name) \<and> CHR 0x0A \<notin> set (Image (Config c)) \<longrightarrow>
        extractApp c = Image (Config c))
     \<and> (\<not> (\<exists>path name rest. Image (Config c) = path @ CHR ''/'' # name @ CHR '':'' # rest
          \<and> CHR ''/'' \<notin> set name) \<longrightarrow>
        extractApp c = [])"
proof (intro conjI impI)
  assume "\<exists>path name rest. Image (Config c) = path @ CHR ''/'' # name @ CHR '':'' # rest
          \<and> CHR ''/'' \<notin> set name"
  then have "FindStringSubmatch imageNameRegex (Image (Config c)) \<noteq> None"
    by (simp add: FindStringSubmatch_None_iff)
  then obtain ms where ms: "FindStringSubmatch imageNameRegex (Image (Config c)) = Some ms"
    by auto
  from FindStringSubmatch_Some_form [OF ms] obtain pre A B C rest where
    *: "Image (Config c) = pre @ A @ CHR ''/'' # B @ CHR '':'' # C @ rest"
       "ms = [A @ CHR ''/'' # B @ CHR '':'' # C, B]"
       "CHR 0x0A \<notin> set A" "CHR ''/'' \<notin> set B" "CHR 0x0A \<notin> set C"
       "rest = [] \<or> hd rest = CHR 0x0A"
    by blast
  have "extractApp c = A @ CHR ''/'' # B @ CHR '':'' # C"
    using assms ms *(2) by (simp add: extractApp_image)
  with * show "\<exists>pre A B C rest. Image (Config c) = pre @ A @ CHR ''/'' # B @ CHR '':'' # C @ rest
           \<and> extractApp c = A @ CHR ''/'' # B @ CHR '':'' # C
           \<and> CHR 0x0A \<notin> set A \<and> CHR ''/'' \<notin> set B \<and> CHR 0x0A \<notin> set C
           \<and> (rest = [] \<or> hd rest = CHR 0x0A)"
    by blast
next
  assume "(\<exists>path name rest. Image (Config c) = path @ CHR ''/'' # name @ CHR '':'' # rest
          \<and> CHR ''/'' \<notin> set name) \<and> CHR 0x0A \<notin> set (Image (Config c))"
  then obtain path name rest where
    "Image (Config c) = path @ CHR ''/'' # name @ CHR '':'' # rest" "CHR ''/'' \<notin> set name"
    "CHR 0x0A \<notin> set (Image (Config c))"
    by blast
  from FindStringSubmatch_whole [OF this(3) this(1) this(2)] obtain B where
    "FindStringSubmatch imageNameRegex (Image (Config c)) = Some [Image (Config c), B]"
    by blast
  then show "extractApp c = Image (Config c)"
    using assms by (simp add: extractApp_image)
next
  assume "\<not> (\<exists>path name rest. Image (Config c) = path @ CHR ''/'' # name @ CHR '':'' # rest
          \<and> CHR ''/'' \<notin> set name)"
  then have "FindStringSubmatch imageNameRegex (Image (Config c)) = None"
    by (simp add: FindStringSubmatch_None_iff)
  then show "extractApp c = []"
    using assms by (simp add: extractApp_image)
qed

lemma no_split_without_char: "c \<notin> set s \<Longrightarrow> s \<noteq> u @ c # v"
  by auto

text \<open>
  The image reference \<open>registry.example.com/myapp:1.2\<close> gives the label
  \<open>registry.example.com/myapp:1.2\<close>, sanitized to \<open>registry_example_com_myapp:1_2\<close>; the
  reference \<open>myapp\<close> gives the empty label.
\<close>

theorem extractApp_from_image_witness:
  "extractApp \<lparr>ID = ''abcdef1234567890'',
       Config = \<lparr>Env = [''PATH=/usr/bin''], Image = ''registry.example.com/myapp:1.2''\<rparr>\<rparr>
     = ''registry.example.com/myapp:1.2''
   \<and> sanitizeForGraphite (extractApp \<lparr>ID = ''abcdef1234567890'',
       Config = \<lparr>Env = [''PATH=/usr/bin''], Image = ''registry.example.com/myapp:1.2''\<rparr>\<rparr>)
     = ''registry_example_com_myapp:1_2''
   \<and> extractApp \<lparr>ID = ''abcdef1234567890'',
       Config = \<lparr>Env = [''PATH=/usr/bin''], Image = ''myapp''\<rparr>\<rparr> = []"
proof -
  let ?c1 = "\<lparr>ID = ''abcdef1234567890'',
       Config = \<lparr>Env = [''PATH=/usr/bin''], Image = ''registry.example.com/myapp:1.2''\<rparr>\<rparr>"
  let ?c2 = "\<lparr>ID = ''abcdef1234567890'',
       Config = \<lparr>Env = [''PATH=/usr/bin''], Image = ''myapp''\<rparr>\<rparr>"
  have e1: "extractEnv ?c1 ''CHRONOS_JOB_NAME'' = []" "extractEnv ?c1 ''MARATHON_APP_ID'' = []"
    by (simp_all add: extractEnv_def HasPrefix_def)
  have e2: "extractEnv ?c2 ''CHRONOS_JOB_NAME'' = []" "extractEnv ?c2 ''MARATHON_APP_ID'' = []"
    by (simp_all add: extractEnv_def HasPrefix_def)
  have "\<exists>path name rest. Image (Config ?c1) = path @ CHR ''/'' # name @ CHR '':'' # rest
      \<and> CHR ''/'' \<notin> set name"
    by (rule exI [of _ "''registry.example.com''"], rule exI [of _ "''myapp''"],
        rule exI [of _ "''1.2''"]) simp
  then have m1: "(\<exists>path name rest. Image (Config ?c1) = path @ CHR ''/'' # name @ CHR '':'' # rest
      \<and> CHR ''/'' \<notin> set name) \<and> CHR 0x0A \<notin> set (Image (Config ?c1))"
    by simp
  have a1: "extractApp ?c1 = ''registry.example.com/myapp:1.2''"
    using extractApp_from_image [OF e1] m1 by simp
  have "\<not> (\<exists>path name rest. Image (Config ?c2) = path @ CHR ''/'' # name @ CHR '':'' # rest
      \<and> CHR ''/'' \<notin> set name)"
    using no_split_without_char [of "CHR ''/''" "''myapp''"] by simp
  then have a2: "extractApp ?c2 = []"
    using extractApp_from_image [OF e2] by blast
  show ?thesis
    using a1 a2 by (simp add: sanitizeForGraphite_map)
qed

text \<open>
  Claim C3. When the lookup of \<open>CHRONOS_JOB_NAME\<close> is not empty, it is the label, whatever
  \<open>MARATHON_APP_ID\<close> is. When it is empty and the lookup of \<open>MARATHON_APP_ID\<close> is not, the
  label is that value without one leading \<open>/\<close>: \<open>/r\<close> gives \<open>r\<close> (also when \<open>r\<close> starts
  with a \<open>/\<close>), and a value that does not start with \<open>/\<close> is taken as it is. The lookup
  \<open>extractEnv\<close> is the value of the first entry of \<open>Env\<close> that starts with \<open>NAME=\<close>
  (lemma \<open>extractEnv_first\<close>), and empty when there is none (lemma \<open>extractEnv_absent\<close>).
\<close>

theorem extractApp_precedence:
  "(extractEnv c ''CHRONOS_JOB_NAME'' \<noteq> [] \<longrightarrow> extractApp c = extractEnv c ''CHRONOS_JOB_NAME'')
   \<and> (extractEnv c ''CHRONOS_JOB_NAME'' = [] \<longrightarrow>
        (\<forall>r. extractEnv c ''MARATHON_APP_ID'' = CHR ''/'' # r \<longrightarrow> extractApp c = r))
   \<and> (extractEnv c ''CHRONOS_JOB_NAME'' = [] \<and> extractEnv c ''MARATHON_APP_ID'' \<noteq> []
        \<and> hd (extractEnv c ''MARATHON_APP_ID'') \<noteq> CHR ''/'' \<longrightarrow>
        extractApp c = extractEnv c ''MARATHON_APP_ID'')"
proof (intro conjI impI allI)
  assume "extractEnv c ''CHRONOS_JOB_NAME'' \<noteq> []"
  then show "extractApp c = extractEnv c ''CHRONOS_JOB_NAME''"
    by (simp add: extractApp_def)
next
  fix r
  assume "extractEnv c ''CHRONOS_JOB_NAME'' = []" "extractEnv c ''MARATHON_APP_ID'' = CHR ''/'' # r"
  then show "extractApp c = r"
    by (simp add: extractApp_def TrimPrefix_def HasPrefix_def)
next
  assume a: "extractEnv c ''CHRONOS_JOB_NAME'' = [] \<and> extractEnv c ''MARATHON_APP_ID'' \<noteq> []
        \<and> hd (extractEnv c ''MARATHON_APP_ID'') \<noteq> CHR ''/''"
  then obtain x xs where "extractEnv c ''MARATHON_APP_ID'' = x # xs" "x \<noteq> CHR ''/''"
    by (cases "extractEnv c ''MARATHON_APP_ID''") auto
  with a show "extractApp c = extractEnv c ''MARATHON_APP_ID''"
    by (simp add: extractApp_def TrimPrefix_def HasPrefix_def)
qed

text \<open>
  With both variables set the label is the value of \<open>CHRONOS_JOB_NAME\<close>; with
  \<open>MARATHON_APP_ID=/group/service\<close> alone it is \<open>group/service\<close>, sanitized to
  \<open>group_service\<close>; of \<open>//a\<close> one slash is stripped.
\<close>

theorem extractApp_precedence_witness:
  "extractApp \<lparr>ID = ''abcdef1234567890'', Config = \<lparr>Env = [''PATH=/usr/bin'',
        ''MARATHON_APP_ID=/group/service'', ''CHRONOS_JOB_NAME=nightly.job''], Image = ''myapp''\<rparr>\<rparr>
     = ''nightly.job''
   \<and> extractApp \<lparr>ID = ''abcdef1234567890'', Config = \<lparr>Env = [''PATH=/usr/bin'',
        ''MARATHON_APP_ID=/group/service''], Image = ''myapp''\<rparr>\<rparr> = ''group/service''
   \<and> sanitizeForGraphite (extractApp \<lparr>ID = ''abcdef1234567890'', Config = \<lparr>Env = [''PATH=/usr/bin'',
        ''MARATHON_APP_ID=/group/service''], Image = ''myapp''\<rparr>\<rparr>) = ''group_service''
   \<and> extractApp \<lparr>ID = ''abcdef1234567890'', Config = \<lparr>Env = [''MARATHON_APP_ID=//a''],
        Image = ''myapp''\<rparr>\<rparr> = ''/a''
   \<and> extractApp \<lparr>ID = ''abcdef1234567890'', Config = \<lparr>Env = [''MARATHON_APP_ID=service''],
        Image = ''myapp''\<rparr>\<rparr> = ''service''"
proof -
  let ?c1 = "\<lparr>ID = ''abcdef1234567890'', Config = \<lparr>Env = [''PATH=/usr/bin'',
        ''MARATHON_APP_ID=/group/service'', ''CHRONOS_JOB_NAME=nightly.job''], Image = ''myapp''\<rparr>\<rparr>"
  let ?c2 = "\<lparr>ID = ''abcdef1234567890'', Config = \<lparr>Env = [''PATH=/usr/bin'',
        ''MARATHON_APP_ID=/group/service''], Image = ''myapp''\<rparr>\<rparr>"
  let ?c3 = "\<lparr>ID = ''abcdef1234567890'', Config = \<lparr>Env = [''MARATHON_APP_ID=//a''],
        Image = ''myapp''\<rparr>\<rparr>"
  let ?c4 = "\<lparr>ID = ''abcdef1234567890'', Config = \<lparr>Env = [''MARATHON_APP_ID=service''],
        Image = ''myapp''\<rparr>\<rparr>"
  have e1: "extractEnv ?c1 ''CHRONOS_JOB_NAME'' = ''nightly.job''"
    and m1: "extractEnv ?c1 ''MARATHON_APP_ID'' = ''/group/service''"
    by (simp_all add: extractEnv_def HasPrefix_def TrimPrefix_def)
  have e2: "extractEnv ?c2 ''CHRONOS_JOB_NAME'' = []"
    and m2: "extractEnv ?c2 ''MARATHON_APP_ID'' = CHR ''/'' # ''group/service''"
    by (simp_all add: extractEnv_def HasPrefix_def TrimPrefix_def)
  have e3: "extractEnv ?c3 ''CHRONOS_JOB_NAME'' = []"
    and m3: "extractEnv ?c3 ''MARATHON_APP_ID'' = CHR ''/'' # ''/a''"
    by (simp_all add: extractEnv_def HasPrefix_def TrimPrefix_def)
  have e4: "extractEnv ?c4 ''CHRONOS_JOB_NAME'' = []"
    and m4: "extractEnv ?c4 ''MARATHON_APP_ID'' = ''service''"
    by (simp_all add: extractEnv_def HasPrefix_def TrimPrefix_def)
  have a1: "extractApp ?c1 = ''nightly.job''"
    using extractApp_precedence [of ?c1] e1 by simp
  have a2: "extractApp ?c2 = ''group/service''"
    using extractApp_precedence [of ?c2] e2 m2 by blast
  have a3: "extractApp ?c3 = ''/a''"
    using extractApp_precedence [of ?c3] e3 m3 by blast
  have a4: "extractApp ?c4 = ''service''"
    using extractApp_precedence [of ?c4] e4 m4 by simp
  show ?thesis
    using a1 a2 a3 a4 by (simp add: sanitizeForGraphite_map)
qed


section \<open>Construction\<close>

lemma NewMonitor_inspected:
  "InspectContainer cl ident = Inr container \<Longrightarrow>
     NewMonitor cl ident n =
       (if sanitizeForGraphite (extractApp container) = [] then Return (Inl ErrNoNeedToMonitor)
        else if length (ID container) < 8 then Panic SliceBoundsOutOfRange
        else Return (Inr \<lparr>client = cl, id' = ID container,
               app = sanitizeForGraphite (extractApp container),
               task = sanitizeForGraphite (take 8 (ID container)), interval = n\<rparr>))"
  by (simp add: NewMonitor_def Let_def)

lemma NewMonitor_failed_inspection:
  "InspectContainer cl ident = Inl err \<Longrightarrow> NewMonitor cl ident n = Return (Inl err)"
  by (simp add: NewMonitor_def)

text \<open>
  Claim C5. After a successful inspection, \<open>NewMonitor\<close> returns \<open>(nil, ErrNoNeedToMonitor)\<close>
  exactly when the sanitized label of \<open>extractApp\<close> is empty; this is the case, in
  particular, when both environment lookups are empty and the image reference does not match
  the pattern.
\<close>

theorem NewMonitor_declines_iff_empty_app:
  assumes "InspectContainer cl ident = Inr container"
  shows "(NewMonitor cl ident n = Return (Inl ErrNoNeedToMonitor)
            \<longleftrightarrow> sanitizeForGraphite (extractApp container) = [])
     \<and> (extractEnv container ''CHRONOS_JOB_NAME'' = [] \<and> extractEnv container ''MARATHON_APP_ID'' = []
          \<and> \<not> (\<exists>path name rest. Image (Config container) = path @ CHR ''/'' # name @ CHR '':'' # rest
                 \<and> CHR ''/'' \<notin> set name)
        \<longrightarrow> NewMonitor cl ident n = Return (Inl ErrNoNeedToMonitor))"
proof (intro conjI impI)
  show "NewMonitor cl ident n = Return (Inl ErrNoNeedToMonitor)
            \<longleftrightarrow> sanitizeForGraphite (extractApp container) = []"
    by (simp add: NewMonitor_inspected [OF assms])
next
  assume a: "extractEnv container ''CHRONOS_JOB_NAME'' = [] \<and> extractEnv container ''MARATHON_APP_ID'' = []
          \<and> \<not> (\<exists>path name rest. Image (Config container) = path @ CHR ''/'' # name @ CHR '':'' # rest
                 \<and> CHR ''/'' \<notin> set name)"
  then have "FindStringSubmatch imageNameRegex (Image (Config container)) = None"
    by (simp add: FindStringSubmatch_None_iff)
  with a have "extractApp container = []"
    by (simp add: extractApp_image)
  then show "NewMonitor cl ident n = Return (Inl ErrNoNeedToMonitor)"
    by (simp add: NewMonitor_inspected [OF assms] sanitizeForGraphite_Nil_iff)
qed

text \<open>
  A container with no label in its environment and the image reference \<open>myapp\<close> is
  declined; one with \<open>MARATHON_APP_ID=/group/service\<close> is not.
\<close>

theorem NewMonitor_declines_iff_empty_app_witness:
  "NewMonitor \<lparr>InspectContainer = (\<lambda>i. Inr \<lparr>ID = ''abcdef1234567890'',
         Config = \<lparr>Env = [''PATH=/usr/bin''], Image = ''myapp''\<rparr>\<rparr>),
       StatsCall = (\<lambda>opts. ([] :: nat list, None))\<rparr> ''abcdef'' 1
     = Return (Inl ErrNoNeedToMonitor)
   \<and> NewMonitor \<lparr>InspectContainer = (\<lambda>i. Inr \<lparr>ID = ''abcdef1234567890'',
         Config = \<lparr>Env = [''MARATHON_APP_ID=/group/service''], Image = ''myapp''\<rparr>\<rparr>),
       StatsCall = (\<lambda>opts. ([] :: nat list, None))\<rparr> ''abcdef'' 1
     \<noteq> Return (Inl ErrNoNeedToMonitor)"
proof -
  let ?c1 = "\<lparr>ID = ''abcdef1234567890'', Config = \<lparr>Env = [''PATH=/usr/bin''], Image = ''myapp''\<rparr>\<rparr>"
  let ?c2 = "\<lparr>ID = ''abcdef1234567890'',
         Config = \<lparr>Env = [''MARATHON_APP_ID=/group/service''], Image = ''myapp''\<rparr>\<rparr>"
  let ?cl1 = "\<lparr>InspectContainer = (\<lambda>i. Inr ?c1), StatsCall = (\<lambda>opts. ([] :: nat list, None))\<rparr>"
  let ?cl2 = "\<lparr>InspectContainer = (\<lambda>i. Inr ?c2), StatsCall = (\<lambda>opts. ([] :: nat list, None))\<rparr>"
  have i1: "InspectContainer ?cl1 ''abcdef'' = Inr ?c1" by simp
  have i2: "InspectContainer ?cl2 ''abcdef'' = Inr ?c2" by simp
  have e1: "extractEnv ?c1 ''CHRONOS_JOB_NAME'' = [] \<and> extractEnv ?c1 ''MARATHON_APP_ID'' = []"
    by (simp add: extractEnv_def HasPrefix_def)
  have "\<not> (\<exists>path name rest. Image (Config ?c1) = path @ CHR ''/'' # name @ CHR '':'' # rest
      \<and> CHR ''/'' \<notin> set name)"
    using no_split_without_char [of "CHR ''/''" "''myapp''"] by simp
  with e1 have d1: "NewMonitor ?cl1 ''abcdef'' 1 = Return (Inl ErrNoNeedToMonitor)"
    using NewMonitor_declines_iff_empty_app [OF i1, of 1] by blast
  have "extractApp ?c2 = ''group/service''"
    by (simp add: extractApp_def extractEnv_def HasPrefix_def TrimPrefix_def)
  then have "sanitizeForGraphite (extractApp ?c2) \<noteq> []"
    by (simp add: sanitizeForGraphite_Nil_iff)
  then have d2: "NewMonitor ?cl2 ''abcdef'' 1 \<noteq> Return (Inl ErrNoNeedToMonitor)"
    using NewMonitor_declines_iff_empty_app [OF i2, of 1] by blast
  from d1 d2 show ?thesis by blast
qed

text \<open>
  Claim C8. The \<open>task\<close> of a constructed monitor is the sanitized first 8 characters of the
  \<open>ID\<close> of the inspected container, which then has at least 8 characters; for the ID
  \<open>abcdef1234567890\<close> it is \<open>abcdef12\<close>.
\<close>

theorem NewMonitor_task:
  assumes "InspectContainer cl ident = Inr container"
    and "NewMonitor cl ident n = Return (Inr m)"
  shows "task m = sanitizeForGraphite (take 8 (ID container)) \<and> 8 \<le> length (ID container)
     \<and> (ID container = ''abcdef1234567890'' \<longrightarrow> task m = ''abcdef12'')"
proof -
  from assms have *: "task m = sanitizeForGraphite (take 8 (ID container))" "8 \<le> length (ID container)"
    by (auto simp add: NewMonitor_inspected split: if_splits)
  then show ?thesis
    by (simp add: sanitizeForGraphite_map)
qed

text \<open>
  The monitor constructed for the container \<open>abcdef1234567890\<close> with the image reference
  \<open>registry.example.com/myapp:1.2\<close>.
\<close>

theorem NewMonitor_task_witness:
  "NewMonitor \<lparr>InspectContainer = (\<lambda>i. Inr \<lparr>ID = ''abcdef1234567890'',
         Config = \<lparr>Env = [], Image = ''registry.example.com/myapp:1.2''\<rparr>\<rparr>),
       StatsCall = (\<lambda>opts. ([] :: nat list, None))\<rparr> ''abcdef'' 1
     = Return (Inr \<lparr>client = \<lparr>InspectContainer = (\<lambda>i. Inr \<lparr>ID = ''abcdef1234567890'',
            Config = \<lparr>Env = [], Image = ''registry.example.com/myapp:1.2''\<rparr>\<rparr>),
          StatsCall = (\<lambda>opts. ([] :: nat list, None))\<rparr>,
        id' = ''abcdef1234567890'', app = ''registry_example_com_myapp:1_2'', task = ''abcdef12'',
        interval = 1\<rparr>)
   \<and> task \<lparr>client = \<lparr>InspectContainer = (\<lambda>i. Inr \<lparr>ID = ''abcdef1234567890'',
            Config = \<lparr>Env = [], Image = ''registry.example.com/myapp:1.2''\<rparr>\<rparr>),
          StatsCall = (\<lambda>opts. ([] :: nat list, None))\<rparr>,
        id' = ''abcdef1234567890'', app = ''registry_example_com_myapp:1_2'', task = ''abcdef12'',
        interval = 1\<rparr> = sanitizeForGraphite (take 8 ''abcdef1234567890'')"
proof -
  let ?c = "\<lparr>ID = ''abcdef1234567890'',
         Config = \<lparr>Env = [], Image = ''registry.example.com/myapp:1.2''\<rparr>\<rparr>"
  let ?cl = "\<lparr>InspectContainer = (\<lambda>i. Inr ?c), StatsCall = (\<lambda>opts. ([] :: nat list, None))\<rparr>"
  let ?m = "\<lparr>client = ?cl, id' = ''abcdef1234567890'', app = ''registry_example_com_myapp:1_2'',
        task = ''abcdef12'', interval = 1\<rparr>"
  have i: "InspectContainer ?cl ''abcdef'' = Inr ?c" by simp
  have "FindStringSubmatch imageNameRegex ''registry.example.com/myapp:1.2''
      = Some [''registry.example.com/myapp:1.2'', ''myapp'']"
    by code_simp
  then have a: "extractApp ?c = ''registry.example.com/myapp:1.2''"
    by (simp add: extractApp_def extractEnv_def)
  have r: "NewMonitor ?cl ''abcdef'' 1 = Return (Inr ?m)"
    by (simp add: NewMonitor_inspected [OF i] a sanitizeForGraphite_map)
  from NewMonitor_task [OF i r] r show ?thesis by simp
qed

text \<open>
  Claim C9. A monitor that \<open>NewMonitor\<close> returns has a non-empty \<open>app\<close>; when the sanitized
  label of the inspected container is empty, \<open>NewMonitor\<close> returns the sentinel
  \<open>ErrNoNeedToMonitor\<close> and no monitor.
\<close>

theorem NewMonitor_app_nonempty:
  "(NewMonitor cl ident n = Return (Inr m) \<longrightarrow> app m \<noteq> [])
   \<and> (InspectContainer cl ident = Inr container \<and> sanitizeForGraphite (extractApp container) = []
        \<longrightarrow> NewMonitor cl ident n = Return (Inl ErrNoNeedToMonitor))"
proof (intro conjI impI)
  assume r: "NewMonitor cl ident n = Return (Inr m)"
  show "app m \<noteq> []"
  proof (cases "InspectContainer cl ident")
    case (Inl err)
    with r show ?thesis by (simp add: NewMonitor_failed_inspection)
  next
    case (Inr container)
    with r show ?thesis by (auto simp add: NewMonitor_inspected split: if_splits)
  qed
next
  assume "InspectContainer cl ident = Inr container \<and> sanitizeForGraphite (extractApp container) = []"
  then show "NewMonitor cl ident n = Return (Inl ErrNoNeedToMonitor)"
    by (simp add: NewMonitor_inspected)
qed

text \<open>
  A container with \<open>CHRONOS_JOB_NAME=nightly.job\<close> gives a monitor with the label
  \<open>nightly_job\<close>; one with \<open>MARATHON_APP_ID=/\<close>, whose label is empty after the slash is
  stripped, is declined.
\<close>

theorem NewMonitor_app_nonempty_witness:
  "NewMonitor \<lparr>InspectContainer = (\<lambda>i. Inr \<lparr>ID = ''abcdef1234567890'',
         Config = \<lparr>Env = [''CHRONOS_JOB_NAME=nightly.job''], Image = ''myapp''\<rparr>\<rparr>),
       StatsCall = (\<lambda>opts. ([] :: nat list, None))\<rparr> ''abcdef'' 1
     = Return (Inr \<lparr>client = \<lparr>InspectContainer = (\<lambda>i. Inr \<lparr>ID = ''abcdef1234567890'',
            Config = \<lparr>Env = [''CHRONOS_JOB_NAME=nightly.job''], Image = ''myapp''\<rparr>\<rparr>),
          StatsCall = (\<lambda>opts. ([] :: nat list, None))\<rparr>,
        id' = ''abcdef1234567890'', app = ''nightly_job'', task = ''abcdef12'', interval = 1\<rparr>)
   \<and> ''nightly_job'' \<noteq> []
   \<and> NewMonitor \<lparr>InspectContainer = (\<lambda>i. Inr \<lparr>ID = ''abcdef1234567890'',
         Config = \<lparr>Env = [''MARATHON_APP_ID=/''], Image = ''myapp''\<rparr>\<rparr>),
       StatsCall = (\<lambda>opts. ([] :: nat list, None))\<rparr> ''abcdef'' 1
     = Return (Inl ErrNoNeedToMonitor)"
proof -
  let ?c1 = "\<lparr>ID = ''abcdef1234567890'',
         Config = \<lparr>Env = [''CHRONOS_JOB_NAME=nightly.job''], Image = ''myapp''\<rparr>\<rparr>"
  let ?cl1 = "\<lparr>InspectContainer = (\<lambda>i. Inr ?c1), StatsCall = (\<lambda>opts. ([] :: nat list, None))\<rparr>"
  let ?m = "\<lparr>client = ?cl1, id' = ''abcdef1234567890'', app = ''nightly_job'', task = ''abcdef12'',
        interval = 1\<rparr>"
  let ?c2 = "\<lparr>ID = ''abcdef1234567890'',
         Config = \<lparr>Env = [''MARATHON_APP_ID=/''], Image = ''myapp''\<rparr>\<rparr>"
  let ?cl2 = "\<lparr>InspectContainer = (\<lambda>i. Inr ?c2), StatsCall = (\<lambda>opts. ([] :: nat list, None))\<rparr>"
  have i1: "InspectContainer ?cl1 ''abcdef'' = Inr ?c1" by simp
  have i2: "InspectContainer ?cl2 ''abcdef'' = Inr ?c2" by simp
  have a1: "extractApp ?c1 = ''nightly.job''"
    by (simp add: extractApp_def extractEnv_def HasPrefix_def TrimPrefix_def)
  have r1: "NewMonitor ?cl1 ''abcdef'' 1 = Return (Inr ?m)"
    by (simp add: NewMonitor_inspected [OF i1] a1 sanitizeForGraphite_map)
  have n1: "app ?m \<noteq> []"
    using NewMonitor_app_nonempty [of ?cl1 "''abcdef''" 1 ?m] r1 by blast
  have a2: "extractApp ?c2 = []"
    by (simp add: extractApp_def extractEnv_def HasPrefix_def TrimPrefix_def)
  then have "sanitizeForGraphite (extractApp ?c2) = []"
    by (simp add: sanitizeForGraphite_Nil_iff)
  with i2 have r2: "NewMonitor ?cl2 ''abcdef'' 1 = Return (Inl ErrNoNeedToMonitor)"
    using NewMonitor_app_nonempty [of ?cl2 "''abcdef''" 1 _ ?c2] by blast
  from r1 n1 r2 show ?thesis by simp
qed

text \<open>
  Claim C10, as stated, says that \<open>NewMonitor\<close> panics for every inspected container whose
  \<open>ID\<close> has fewer than 8 characters, also when identity resolution declines. The check of
  the label comes before the slice \<open>container.ID[:8]\<close>: the container with the ID \<open>abc\<close>,
  no label in its environment and the image reference \<open>myapp\<close> is declined, without a panic.
\<close>

theorem NewMonitor_short_ID_counterexample:
  "InspectContainer \<lparr>InspectContainer = (\<lambda>i. Inr \<lparr>ID = ''abc'',
         Config = \<lparr>Env = [''PATH=/usr/bin''], Image = ''myapp''\<rparr>\<rparr>),
       StatsCall = (\<lambda>opts. ([] :: nat list, None))\<rparr> ''abc''
     = Inr \<lparr>ID = ''abc'', Config = \<lparr>Env = [''PATH=/usr/bin''], Image = ''myapp''\<rparr>\<rparr>
   \<and> length (ID \<lparr>ID = ''abc'', Config = \<lparr>Env = [''PATH=/usr/bin''], Image = ''myapp''\<rparr>\<rparr>) < 8
   \<and> NewMonitor \<lparr>InspectContainer = (\<lambda>i. Inr \<lparr>ID = ''abc'',
         Config = \<lparr>Env = [''PATH=/usr/bin''], Image = ''myapp''\<rparr>\<rparr>),
       StatsCall = (\<lambda>opts. ([] :: nat list, None))\<rparr> ''abc'' 1
     = Return (Inl ErrNoNeedToMonitor)"
proof -
  let ?c = "\<lparr>ID = ''abc'', Config = \<lparr>Env = [''PATH=/usr/bin''], Image = ''myapp''\<rparr>\<rparr>"
  have "FindStringSubmatch imageNameRegex ''myapp'' = None"
    by code_simp
  then have "extractApp ?c = []"
    by (simp add: extractApp_def extractEnv_def HasPrefix_def)
  then show ?thesis
    by (simp add: NewMonitor_def sanitizeForGraphite_Nil_iff)
qed

text \<open>
  Claim C10, amended. For an inspected container whose \<open>ID\<close> has fewer than 8 characters,
  \<open>NewMonitor\<close> panics (slice bounds out of range) when the sanitized label is not empty, and
  returns \<open>ErrNoNeedToMonitor\<close>, without a panic, when it is empty.
\<close>

theorem NewMonitor_short_ID:
  assumes "InspectContainer cl ident = Inr container"
  shows "(length (ID container) < 8 \<and> sanitizeForGraphite (extractApp container) \<noteq> []
            \<longrightarrow> NewMonitor cl ident n = Panic SliceBoundsOutOfRange)
     \<and> (length (ID container) < 8 \<and> sanitizeForGraphite (extractApp container) = []
            \<longrightarrow> NewMonitor cl ident n = Return (Inl ErrNoNeedToMonitor))"
  by (simp add: NewMonitor_inspected [OF assms])

text \<open>
  The two cases: a short ID with a label, and a short ID without one.
\<close>

theorem NewMonitor_short_ID_witness:
  "NewMonitor \<lparr>InspectContainer = (\<lambda>i. Inr \<lparr>ID = ''abc'',
         Config = \<lparr>Env = [''CHRONOS_JOB_NAME=nightly.job''], Image = ''myapp''\<rparr>\<rparr>),
       StatsCall = (\<lambda>opts. ([] :: nat list, None))\<rparr> ''abc'' 1
     = Panic SliceBoundsOutOfRange
   \<and> NewMonitor \<lparr>InspectContainer = (\<lambda>i. Inr \<lparr>ID = ''abc'',
         Config = \<lparr>Env = [], Image = ''''\<rparr>\<rparr>),
       StatsCall = (\<lambda>opts. ([] :: nat list, None))\<rparr> ''abc'' 1
     = Return (Inl ErrNoNeedToMonitor)"
proof -
  let ?c1 = "\<lparr>ID = ''abc'', Config = \<lparr>Env = [''CHRONOS_JOB_NAME=nightly.job''], Image = ''myapp''\<rparr>\<rparr>"
  let ?c2 = "\<lparr>ID = ''abc'', Config = \<lparr>Env = [], Image = ''''\<rparr>\<rparr>"
  let ?cl1 = "\<lparr>InspectContainer = (\<lambda>i. Inr ?c1), StatsCall = (\<lambda>opts. ([] :: nat list, None))\<rparr>"
  let ?cl2 = "\<lparr>InspectContainer = (\<lambda>i. Inr ?c2), StatsCall = (\<lambda>opts. ([] :: nat list, None))\<rparr>"
  have i1: "InspectContainer ?cl1 ''abc'' = Inr ?c1" by simp
  have i2: "InspectContainer ?cl2 ''abc'' = Inr ?c2" by simp
  have "extractApp ?c1 = ''nightly.job''"
    by (simp add: extractApp_def extractEnv_def HasPrefix_def TrimPrefix_def)
  then have a1: "length (ID ?c1) < 8 \<and> sanitizeForGraphite (extractApp ?c1) \<noteq> []"
    by (simp add: sanitizeForGraphite_Nil_iff)
  have "FindStringSubmatch imageNameRegex '''' = None"
    by code_simp
  then have "extractApp ?c2 = []"
    by (simp add: extractApp_def extractEnv_def)
  then have a2: "length (ID ?c2) < 8 \<and> sanitizeForGraphite (extractApp ?c2) = []"
    by (simp add: sanitizeForGraphite_Nil_iff)
  have r1: "NewMonitor ?cl1 ''abc'' 1 = Panic SliceBoundsOutOfRange"
    using NewMonitor_short_ID [OF i1, of 1] a1 by blast
  have r2: "NewMonitor ?cl2 ''abc'' 1 = Return (Inl ErrNoNeedToMonitor)"
    using NewMonitor_short_ID [OF i2, of 1] a2 by blast
  from r1 r2 show ?thesis by (rule conjI)
qed

section \<open>The sampling loop\<close>

lemma smod_nonneg: "0 \<le> a \<Longrightarrow> (a::int) smod b = a mod \<bar>b\<bar>"
  by (cases "a = 0") (simp_all add: smod_int_alt_def)

lemma sint_of_nat_small: "k < 2 ^ 63 \<Longrightarrow> sint (of_nat k :: go_int) = int k"
proof -
  assume "k < 2 ^ 63"
  then have "int k < 2 ^ 63" by (metis of_nat_less_iff of_nat_numeral of_nat_power)
  then have "signed_take_bit 63 (int k) = int k"
    by (intro signed_take_bit_int_eq_self) simp_all
  then show ?thesis by (simp add: signed_of_nat)
qed

lemma sint_abs_bound: "\<bar>sint (w :: go_int)\<bar> \<le> 2 ^ 63"
  using sint_ge [of w] sint_lt [of w] by simp

lemma word_of_int_eq_0_small:
  "0 \<le> r \<Longrightarrow> r < 2 ^ 63 \<Longrightarrow> (word_of_int r :: go_int) = 0 \<longleftrightarrow> r = 0"
proof -
  assume r: "0 \<le> r" "r < 2 ^ 63"
  have "(2 ^ 64 :: int) dvd r \<longleftrightarrow> r = 0"
  proof
    assume d: "(2 ^ 64 :: int) dvd r"
    show "r = 0"
    proof (rule ccontr)
      assume "r \<noteq> 0"
      with r have "0 < r" by simp
      with d have "(2 ^ 64 :: int) \<le> r" by (rule zdvd_imp_le)
      with r show False by simp
    qed
  qed simp
  then show ?thesis by (simp add: word_of_int_eq_0_iff)
qed

lemma go_rem_eq_0_iff:
  assumes "k < 2 ^ 63" and "N \<noteq> 0"
  shows "go_rem (of_nat k) N = 0 \<longleftrightarrow> k mod nat \<bar>sint N\<bar> = 0"
proof -
  from assms(2) have nz: "sint N \<noteq> 0" by (simp add: signed_eq_0_iff)
  let ?r = "int k mod \<bar>sint N\<bar>"
  have "go_rem (of_nat k) N = word_of_int ?r"
    by (simp add: go_rem_def sint_of_nat_small [OF assms(1)] smod_nonneg)
  moreover have "0 \<le> ?r" using nz by simp
  moreover have "?r < \<bar>sint N\<bar>" using nz by simp
  then have "?r < 2 ^ 63" using sint_abs_bound [of N] by linarith
  ultimately have "go_rem (of_nat k) N = 0 \<longleftrightarrow> ?r = 0"
    by (simp add: word_of_int_eq_0_small)
  also have "?r = int (k mod nat \<bar>sint N\<bar>)"
    by (simp add: zmod_int)
  finally show ?thesis by simp
qed

lemma handle_loop_Cons_fst:
  "interval m \<noteq> 0 \<Longrightarrow>
     fst (handle_loop m i (s # ss)) =
       (if go_rem i (interval m) \<noteq> 0 then fst (handle_loop m (i + 1) ss)
        else \<lparr>App = app m, Task = task m, Stats = s\<rparr> # fst (handle_loop m (i + 1) ss))"
  by (simp add: case_prod_beta)

lemma handle_loop_Cons_snd:
  "interval m \<noteq> 0 \<Longrightarrow> snd (handle_loop m i (s # ss)) = snd (handle_loop m (i + 1) ss)"
  by (simp add: case_prod_beta)

lemma handle_loop_no_fault: "interval m \<noteq> 0 \<Longrightarrow> snd (handle_loop m i ss) = None"
  by (induction ss arbitrary: i) (simp_all add: handle_loop_Cons_snd del: handle_loop.simps(2))

lemma handle_loop_append:
  "interval m \<noteq> 0 \<Longrightarrow>
     fst (handle_loop m i (xs @ ys)) =
       fst (handle_loop m i xs) @ fst (handle_loop m (i + of_nat (length xs)) ys)"
  by (induction xs arbitrary: i)
    (simp_all add: handle_loop_Cons_fst add.assoc del: handle_loop.simps(2))

lemma filter_upt_Suc:
  "filter P [0..<Suc l] = (if P 0 then [0] else []) @ map Suc (filter (\<lambda>j. P (Suc j)) [0..<l])"
proof -
  have "[0..<Suc l] = 0 # map Suc [0..<l]"
    by (simp add: upt_conv_Cons map_Suc_upt del: upt_Suc)
  then show ?thesis by (simp add: filter_map comp_def del: upt_Suc)
qed

lemma handle_loop_stride:
  assumes "interval m \<noteq> 0"
  shows "k + length ss \<le> 2 ^ 63 \<Longrightarrow>
     fst (handle_loop m (of_nat k) ss) =
       map (\<lambda>j. \<lparr>App = app m, Task = task m, Stats = ss ! j\<rparr>)
         (filter (\<lambda>j. (k + j) mod nat \<bar>sint (interval m)\<bar> = 0) [0..<length ss])"
proof (induction ss arbitrary: k)
  case Nil
  then show ?case by simp
next
  case (Cons s ss)
  from Cons.prems have k: "k < 2 ^ 63" and k': "Suc k + length ss \<le> 2 ^ 63" by simp_all
  have next_i: "(of_nat k :: go_int) + 1 = of_nat (Suc k)" by simp
  have IH: "fst (handle_loop m (of_nat (Suc k)) ss) =
       map (\<lambda>j. \<lparr>App = app m, Task = task m, Stats = ss ! j\<rparr>)
         (filter (\<lambda>j. (Suc k + j) mod nat \<bar>sint (interval m)\<bar> = 0) [0..<length ss])"
    by (rule Cons.IH [OF k'])
  have test: "go_rem (of_nat k) (interval m) = 0 \<longleftrightarrow> k mod nat \<bar>sint (interval m)\<bar> = 0"
    by (rule go_rem_eq_0_iff [OF k assms])
  show ?case
    unfolding handle_loop_Cons_fst [OF assms] next_i length_Cons filter_upt_Suc IH test
    by (simp add: comp_def del: of_nat_Suc upt_Suc)
qed

lemma multiple_below_iff:
  assumes "0 < (n::nat)"
  shows "q < (L + n - 1) div n \<longleftrightarrow> q * n < L"
proof -
  have "q < (L + n - 1) div n \<longleftrightarrow> Suc q \<le> (L + n - 1) div n" by auto
  also have "\<dots> \<longleftrightarrow> Suc q * n \<le> L + n - 1"
    using assms by (simp only: less_eq_div_iff_mult_less_eq)
  also have "\<dots> \<longleftrightarrow> q * n < L" using assms by auto
  finally show ?thesis .
qed

lemma filter_multiples:
  assumes "0 < (n::nat)"
  shows "filter (\<lambda>j. j mod n = 0) [0..<L] = map (\<lambda>q. q * n) [0..<(L + n - 1) div n]"
proof (rule sorted_distinct_set_unique)
  show "sorted (filter (\<lambda>j. j mod n = 0) [0..<L])" by (simp add: sorted_wrt_filter)
  show "distinct (filter (\<lambda>j. j mod n = 0) [0..<L])" by simp
  show "sorted (map (\<lambda>q. q * n) [0..<(L + n - 1) div n])"
    by (simp add: sorted_iff_nth_mono)
  show "distinct (map (\<lambda>q. q * n) [0..<(L + n - 1) div n])"
    using assms by (simp add: distinct_map inj_on_def)
  show "set (filter (\<lambda>j. j mod n = 0) [0..<L]) = set (map (\<lambda>q. q * n) [0..<(L + n - 1) div n])"
  proof (intro set_eqI iffI)
    fix j assume "j \<in> set (filter (\<lambda>j. j mod n = 0) [0..<L])"
    then have j: "j < L" "j mod n = 0" by simp_all
    then have "j = (j div n) * n" by auto
    moreover from this j(1) have "j div n < (L + n - 1) div n"
      using multiple_below_iff [OF assms, of "j div n" L] by simp
    ultimately show "j \<in> set (map (\<lambda>q. q * n) [0..<(L + n - 1) div n])"
      by (metis (no_types, lifting) atLeastLessThan_iff image_eqI set_map set_upt zero_le)
  next
    fix j assume "j \<in> set (map (\<lambda>q. q * n) [0..<(L + n - 1) div n])"
    then have "\<exists>q. j = q * n \<and> q < (L + n - 1) div n" by auto
    then obtain q where "j = q * n" "q < (L + n - 1) div n" by blast
    then show "j \<in> set (filter (\<lambda>j. j mod n = 0) [0..<L])"
      using multiple_below_iff [OF assms, of q L] by simp
  qed
qed

text \<open>
  Claim C1. For a positive \<open>interval\<close> \<open>N\<close> and raw samples indexed \<open>0..K\<close>, the values sent on
  the output channel are the labeled samples at the indices \<open>0, N, 2N, \<dots>\<close> up to \<open>K\<close>, in
  arrival order: the indices \<open>q * N\<close> below the number of samples, which are the indices
  \<open>j\<close> with \<open>j mod N = 0\<close>; the loop ends without a fault. With \<open>N = 1\<close> every sample is
  forwarded. The counter counts every raw sample, forwarded or not: after a first part
  \<open>xs\<close> of the stream the loop goes on with the counter \<open>length xs\<close>. The counter \<open>i\<close> is a
  64-bit \<open>int\<close>; the statement is for streams of at most \<open>2^63\<close> samples, on which it does
  not wrap around.
\<close>

theorem handle_loop_every_Nth:
  assumes "0 < sint (interval m)" and "length samples \<le> 2 ^ 63"
  shows "handle_loop m 0 samples =
           (map (\<lambda>q. \<lparr>App = app m, Task = task m, Stats = samples ! (q * nat (sint (interval m)))\<rparr>)
              [0..<(length samples + nat (sint (interval m)) - 1) div nat (sint (interval m))], None)
     \<and> handle_loop m 0 samples =
           (map (\<lambda>j. \<lparr>App = app m, Task = task m, Stats = samples ! j\<rparr>)
              (filter (\<lambda>j. j mod nat (sint (interval m)) = 0) [0..<length samples]), None)
     \<and> (interval m = 1 \<longrightarrow>
          handle_loop m 0 samples = (map (\<lambda>s. \<lparr>App = app m, Task = task m, Stats = s\<rparr>) samples, None))
     \<and> (\<forall>xs ys. samples = xs @ ys \<longrightarrow>
          fst (handle_loop m 0 samples) =
            fst (handle_loop m 0 xs) @ fst (handle_loop m (of_nat (length xs)) ys))"
proof -
  let ?n = "nat (sint (interval m))"
  from assms(1) have nz: "interval m \<noteq> 0" by auto
  from assms(1) have n: "0 < ?n" "nat \<bar>sint (interval m)\<bar> = ?n" by simp_all
  have "fst (handle_loop m (of_nat 0) samples) =
       map (\<lambda>j. \<lparr>App = app m, Task = task m, Stats = samples ! j\<rparr>)
         (filter (\<lambda>j. (0 + j) mod nat \<bar>sint (interval m)\<bar> = 0) [0..<length samples])"
    using assms(2) by (intro handle_loop_stride [OF nz]) simp
  then have f: "fst (handle_loop m 0 samples) =
       map (\<lambda>j. \<lparr>App = app m, Task = task m, Stats = samples ! j\<rparr>)
         (filter (\<lambda>j. j mod ?n = 0) [0..<length samples])"
    by (simp add: n(2))
  have s: "snd (handle_loop m 0 samples) = None"
    by (rule handle_loop_no_fault [OF nz])
  have A: "handle_loop m 0 samples =
           (map (\<lambda>j. \<lparr>App = app m, Task = task m, Stats = samples ! j\<rparr>)
              (filter (\<lambda>j. j mod ?n = 0) [0..<length samples]), None)"
    using f s by (simp add: prod_eq_iff)
  have B: "handle_loop m 0 samples =
           (map (\<lambda>q. \<lparr>App = app m, Task = task m, Stats = samples ! (q * ?n)\<rparr>)
              [0..<(length samples + ?n - 1) div ?n], None)"
    unfolding A filter_multiples [OF n(1)] by (simp add: comp_def)
  have C: "handle_loop m 0 samples = (map (\<lambda>s. \<lparr>App = app m, Task = task m, Stats = s\<rparr>) samples, None)"
    if "interval m = 1"
  proof -
    from that have "?n = 1" by simp
    then have "handle_loop m 0 samples =
        (map (\<lambda>j. \<lparr>App = app m, Task = task m, Stats = samples ! j\<rparr>) [0..<length samples], None)"
      unfolding A by simp
    also have "map (\<lambda>j. \<lparr>App = app m, Task = task m, Stats = samples ! j\<rparr>) [0..<length samples]
        = map (\<lambda>s. \<lparr>App = app m, Task = task m, Stats = s\<rparr>) (map (\<lambda>j. samples ! j) [0..<length samples])"
      by (simp add: comp_def)
    also have "map (\<lambda>j. samples ! j) [0..<length samples] = samples"
      by (rule map_nth)
    finally show ?thesis .
  qed
  have D: "fst (handle_loop m 0 samples) =
            fst (handle_loop m 0 xs) @ fst (handle_loop m (of_nat (length xs)) ys)"
    if "samples = xs @ ys" for xs ys
    using handle_loop_append [OF nz, of 0 xs ys] that by simp
  from A B C D show ?thesis by blast
qed

text \<open>
  Of 5 samples with \<open>interval = 3\<close> the samples at the indices 0 and 3 are forwarded; with
  \<open>interval = 1\<close> all of them are.
\<close>

theorem handle_loop_every_Nth_witness:
  "handle_loop \<lparr>client = \<lparr>InspectContainer = (\<lambda>i. Inl ErrNoNeedToMonitor),
         StatsCall = (\<lambda>opts. ([], None))\<rparr>,
       id' = ''abcdef1234567890'', app = ''myapp'', task = ''abcdef12'', interval = 3\<rparr> 0
     [10, 11, 12, 13, 14 :: nat]
   = ([\<lparr>App = ''myapp'', Task = ''abcdef12'', Stats = 10\<rparr>,
       \<lparr>App = ''myapp'', Task = ''abcdef12'', Stats = 13\<rparr>], None)
   \<and> handle_loop \<lparr>client = \<lparr>InspectContainer = (\<lambda>i. Inl ErrNoNeedToMonitor),
         StatsCall = (\<lambda>opts. ([], None))\<rparr>,
       id' = ''abcdef1234567890'', app = ''myapp'', task = ''abcdef12'', interval = 1\<rparr> 0
     [10, 11, 12 :: nat]
   = ([\<lparr>App = ''myapp'', Task = ''abcdef12'', Stats = 10\<rparr>,
       \<lparr>App = ''myapp'', Task = ''abcdef12'', Stats = 11\<rparr>,
       \<lparr>App = ''myapp'', Task = ''abcdef12'', Stats = 12\<rparr>], None)"
proof -
  let ?cl = "\<lparr>InspectContainer = (\<lambda>i. Inl ErrNoNeedToMonitor),
         StatsCall = (\<lambda>opts. ([] :: nat list, None))\<rparr>"
  let ?m3 = "\<lparr>client = ?cl, id' = ''abcdef1234567890'', app = ''myapp'', task = ''abcdef12'',
       interval = 3\<rparr>"
  let ?m1 = "\<lparr>client = ?cl, id' = ''abcdef1234567890'', app = ''myapp'', task = ''abcdef12'',
       interval = 1\<rparr>"
  have p3: "0 < sint (interval ?m3)" by simp
  have p1: "0 < sint (interval ?m1)" by simp
  have l3: "length [10, 11, 12, 13, 14 :: nat] \<le> 2 ^ 63" by simp
  have l1: "length [10, 11, 12 :: nat] \<le> 2 ^ 63" by simp
  have u: "[0..<2] = [0, Suc 0]" by (simp add: upt_rec)
  have r3: "handle_loop ?m3 0 [10, 11, 12, 13, 14 :: nat]
      = ([\<lparr>App = ''myapp'', Task = ''abcdef12'', Stats = 10\<rparr>,
          \<lparr>App = ''myapp'', Task = ''abcdef12'', Stats = 13\<rparr>], None)"
    using handle_loop_every_Nth [OF p3 l3, THEN conjunct1] by (simp add: u)
  have r1: "handle_loop ?m1 0 [10, 11, 12 :: nat]
      = ([\<lparr>App = ''myapp'', Task = ''abcdef12'', Stats = 10\<rparr>,
          \<lparr>App = ''myapp'', Task = ''abcdef12'', Stats = 11\<rparr>,
          \<lparr>App = ''myapp'', Task = ''abcdef12'', Stats = 12\<rparr>], None)"
    using handle_loop_every_Nth [OF p1 l1] by simp
  from r3 r1 show ?thesis by (rule conjI)
qed

text \<open>
  Claim C7. For a monitor whose \<open>interval\<close> is not zero, \<open>handle\<close> returns the value that
  the call \<open>m.client.Stats\<close> returns: nil when the source closes normally, the error of the
  transport otherwise. The call is made once, and the goroutine adds no error of its own:
  the values sent on the channel are those of the loop over the samples of that one call.
\<close>

theorem handle_returns_Stats_error:
  assumes "StatsCall (client m) \<lparr>opt_ID = id' m, opt_Stream = True\<rparr> = (samples, err)"
    and "interval m \<noteq> 0"
  shows "handle m = Return (fst (handle_loop m 0 samples), err)"
proof -
  have "snd (handle_loop m 0 samples) = None"
    by (rule handle_loop_no_fault [OF assms(2)])
  then obtain out where out: "handle_loop m 0 samples = (out, None)"
    by (cases "handle_loop m 0 samples") simp
  then show ?thesis
    using assms(1) by (simp add: handle_def)
qed

text \<open>
  A stream of three samples that ends with the error \<open>connection reset\<close>, and one that
  closes normally.
\<close>

theorem handle_returns_Stats_error_witness:
  "handle \<lparr>client = \<lparr>InspectContainer = (\<lambda>i. Inl ErrNoNeedToMonitor),
         StatsCall = (\<lambda>opts. ([10, 11, 12 :: nat], Some (OtherError ''connection reset'')))\<rparr>,
       id' = ''abcdef1234567890'', app = ''myapp'', task = ''abcdef12'', interval = 2\<rparr>
   = Return ([\<lparr>App = ''myapp'', Task = ''abcdef12'', Stats = 10\<rparr>,
              \<lparr>App = ''myapp'', Task = ''abcdef12'', Stats = 12\<rparr>],
             Some (OtherError ''connection reset''))
   \<and> handle \<lparr>client = \<lparr>InspectContainer = (\<lambda>i. Inl ErrNoNeedToMonitor),
         StatsCall = (\<lambda>opts. ([10, 11, 12 :: nat], None))\<rparr>,
       id' = ''abcdef1234567890'', app = ''myapp'', task = ''abcdef12'', interval = 2\<rparr>
   = Return ([\<lparr>App = ''myapp'', Task = ''abcdef12'', Stats = 10\<rparr>,
              \<lparr>App = ''myapp'', Task = ''abcdef12'', Stats = 12\<rparr>], None)"
proof -
  let ?cl1 = "\<lparr>InspectContainer = (\<lambda>i. Inl ErrNoNeedToMonitor),
         StatsCall = (\<lambda>opts. ([10, 11, 12 :: nat], Some (OtherError ''connection reset'')))\<rparr>"
  let ?cl2 = "\<lparr>InspectContainer = (\<lambda>i. Inl ErrNoNeedToMonitor),
         StatsCall = (\<lambda>opts. ([10, 11, 12 :: nat], None))\<rparr>"
  let ?m1 = "\<lparr>client = ?cl1, id' = ''abcdef1234567890'', app = ''myapp'', task = ''abcdef12'',
       interval = 2\<rparr>"
  let ?m2 = "\<lparr>client = ?cl2, id' = ''abcdef1234567890'', app = ''myapp'', task = ''abcdef12'',
       interval = 2\<rparr>"
  have s1: "StatsCall (client ?m1) \<lparr>opt_ID = id' ?m1, opt_Stream = True\<rparr>
      = ([10, 11, 12], Some (OtherError ''connection reset''))" by simp
  have s2: "StatsCall (client ?m2) \<lparr>opt_ID = id' ?m2, opt_Stream = True\<rparr> = ([10, 11, 12], None)"
    by simp
  have n1: "interval ?m1 \<noteq> 0" by simp
  have n2: "interval ?m2 \<noteq> 0" by simp
  have r: "go_rem 0 2 = 0" "go_rem 1 2 \<noteq> 0" "go_rem 2 2 = 0"
    by (simp_all add: go_rem_def smod_int_alt_def)
  have r1: "handle ?m1 = Return ([\<lparr>App = ''myapp'', Task = ''abcdef12'', Stats = 10\<rparr>,
              \<lparr>App = ''myapp'', Task = ''abcdef12'', Stats = 12\<rparr>],
             Some (OtherError ''connection reset''))"
    using handle_returns_Stats_error [OF s1 n1] by (simp add: r)
  have r2: "handle ?m2 = Return ([\<lparr>App = ''myapp'', Task = ''abcdef12'', Stats = 10\<rparr>,
              \<lparr>App = ''myapp'', Task = ''abcdef12'', Stats = 12\<rparr>], None)"
    using handle_returns_Stats_error [OF s2 n2] by (simp add: r)
  from r1 r2 show ?thesis by (rule conjI)
qed

text \<open>
  Claim C6, as stated, says that for every \<open>interval \<le> 0\<close> an explicit policy is applied,
  such as a validation error of the constructor, and no arithmetic fault comes out of the
  sampling loop. \<open>NewMonitor\<close> with \<open>interval = 0\<close> returns a monitor, and \<open>handle\<close> on a
  stream of one sample panics with an integer division by zero.
\<close>

theorem interval_zero_counterexample:
  "sint (0 :: go_int) \<le> 0
   \<and> NewMonitor \<lparr>InspectContainer = (\<lambda>i. Inr \<lparr>ID = ''abcdef1234567890'',
         Config = \<lparr>Env = [''CHRONOS_JOB_NAME=nightly''], Image = ''myapp''\<rparr>\<rparr>),
       StatsCall = (\<lambda>opts. ([10 :: nat], None))\<rparr> ''abcdef'' 0
     = Return (Inr \<lparr>client = \<lparr>InspectContainer = (\<lambda>i. Inr \<lparr>ID = ''abcdef1234567890'',
            Config = \<lparr>Env = [''CHRONOS_JOB_NAME=nightly''], Image = ''myapp''\<rparr>\<rparr>),
          StatsCall = (\<lambda>opts. ([10 :: nat], None))\<rparr>,
        id' = ''abcdef1234567890'', app = ''nightly'', task = ''abcdef12'', interval = 0\<rparr>)
   \<and> handle \<lparr>client = \<lparr>InspectContainer = (\<lambda>i. Inr \<lparr>ID = ''abcdef1234567890'',
            Config = \<lparr>Env = [''CHRONOS_JOB_NAME=nightly''], Image = ''myapp''\<rparr>\<rparr>),
          StatsCall = (\<lambda>opts. ([10 :: nat], None))\<rparr>,
        id' = ''abcdef1234567890'', app = ''nightly'', task = ''abcdef12'', interval = 0\<rparr>
     = Panic IntegerDivideByZero"
proof -
  let ?c = "\<lparr>ID = ''abcdef1234567890'',
         Config = \<lparr>Env = [''CHRONOS_JOB_NAME=nightly''], Image = ''myapp''\<rparr>\<rparr>"
  have a: "extractApp ?c = ''nightly''"
    by (simp add: extractApp_def extractEnv_def HasPrefix_def TrimPrefix_def)
  show ?thesis
    by (simp add: NewMonitor_def Let_def a sanitizeForGraphite_map handle_def)
qed

text \<open>
  Claim C6, amended. \<open>NewMonitor\<close> does not look at \<open>interval\<close>: whenever it constructs a
  monitor, it stores the value given, whatever its sign. With \<open>interval = 0\<close> the loop
  panics with an integer division by zero at the first raw sample, and ends silently on an
  empty stream. With a negative \<open>interval\<close> there is no fault: Go's remainder has the sign
  of the dividend, and the samples at the multiples of \<open>-interval\<close> are forwarded (streams of
  at most \<open>2^63\<close> samples).
\<close>

theorem interval_not_validated:
  "(InspectContainer cl ident = Inr container \<and> sanitizeForGraphite (extractApp container) \<noteq> []
      \<and> 8 \<le> length (ID container) \<longrightarrow>
      (\<exists>m. NewMonitor cl ident n = Return (Inr m) \<and> interval m = n))
   \<and> (interval m = 0 \<and> samples \<noteq> [] \<longrightarrow> handle_loop m i samples = ([], Some IntegerDivideByZero))
   \<and> (interval m = 0 \<longrightarrow> handle_loop m i [] = ([], None))
   \<and> (sint (interval m) < 0 \<and> length samples \<le> 2 ^ 63 \<longrightarrow>
        handle_loop m 0 samples =
           (map (\<lambda>j. \<lparr>App = app m, Task = task m, Stats = samples ! j\<rparr>)
              (filter (\<lambda>j. j mod nat (- sint (interval m)) = 0) [0..<length samples]), None))"
proof (intro conjI impI)
  assume "InspectContainer cl ident = Inr container \<and> sanitizeForGraphite (extractApp container) \<noteq> []
      \<and> 8 \<le> length (ID container)"
  then show "\<exists>m. NewMonitor cl ident n = Return (Inr m) \<and> interval m = n"
    by (simp add: NewMonitor_inspected)
next
  assume "interval m = 0 \<and> samples \<noteq> []"
  then show "handle_loop m i samples = ([], Some IntegerDivideByZero)"
    by (cases samples) simp_all
next
  show "handle_loop m i [] = ([], None)" by simp
next
  assume a: "sint (interval m) < 0 \<and> length samples \<le> 2 ^ 63"
  then have nz: "interval m \<noteq> 0" by auto
  from a have n: "nat \<bar>sint (interval m)\<bar> = nat (- sint (interval m))" by simp
  have "fst (handle_loop m (of_nat 0) samples) =
       map (\<lambda>j. \<lparr>App = app m, Task = task m, Stats = samples ! j\<rparr>)
         (filter (\<lambda>j. (0 + j) mod nat \<bar>sint (interval m)\<bar> = 0) [0..<length samples])"
    using a by (intro handle_loop_stride [OF nz]) simp
  moreover have "snd (handle_loop m 0 samples) = None"
    by (rule handle_loop_no_fault [OF nz])
  ultimately show "handle_loop m 0 samples =
           (map (\<lambda>j. \<lparr>App = app m, Task = task m, Stats = samples ! j\<rparr>)
              (filter (\<lambda>j. j mod nat (- sint (interval m)) = 0) [0..<length samples]), None)"
    by (simp add: prod_eq_iff n)
qed

text \<open>
  A monitor is constructed with \<open>interval = -2\<close>; the loop with \<open>interval = 0\<close> panics on
  three samples; with \<open>interval = -2\<close> it forwards the samples at the indices 0 and 2.
\<close>

theorem interval_not_validated_witness:
  "(\<exists>m. NewMonitor \<lparr>InspectContainer = (\<lambda>i. Inr \<lparr>ID = ''abcdef1234567890'',
         Config = \<lparr>Env = [''CHRONOS_JOB_NAME=nightly''], Image = ''myapp''\<rparr>\<rparr>),
       StatsCall = (\<lambda>opts. ([10 :: nat], None))\<rparr> ''abcdef'' (- 2)
     = Return (Inr m) \<and> interval m = - 2)
   \<and> handle_loop \<lparr>client = \<lparr>InspectContainer = (\<lambda>i. Inl ErrNoNeedToMonitor),
         StatsCall = (\<lambda>opts. ([], None))\<rparr>,
       id' = ''abcdef1234567890'', app = ''myapp'', task = ''abcdef12'', interval = 0\<rparr> 0
     [10, 11, 12 :: nat] = ([], Some IntegerDivideByZero)
   \<and> handle_loop \<lparr>client = \<lparr>InspectContainer = (\<lambda>i. Inl ErrNoNeedToMonitor),
         StatsCall = (\<lambda>opts. ([], None))\<rparr>,
       id' = ''abcdef1234567890'', app = ''myapp'', task = ''abcdef12'', interval = - 2\<rparr> 0
     [10, 11, 12 :: nat]
     = ([\<lparr>App = ''myapp'', Task = ''abcdef12'', Stats = 10\<rparr>,
         \<lparr>App = ''myapp'', Task = ''abcdef12'', Stats = 12\<rparr>], None)"
proof -
  let ?c = "\<lparr>ID = ''abcdef1234567890'',
         Config = \<lparr>Env = [''CHRONOS_JOB_NAME=nightly''], Image = ''myapp''\<rparr>\<rparr>"
  let ?cl = "\<lparr>InspectContainer = (\<lambda>i. Inr ?c), StatsCall = (\<lambda>opts. ([10 :: nat], None))\<rparr>"
  let ?cl' = "\<lparr>InspectContainer = (\<lambda>i. Inl ErrNoNeedToMonitor),
         StatsCall = (\<lambda>opts. ([] :: nat list, None))\<rparr>"
  let ?m0 = "\<lparr>client = ?cl', id' = ''abcdef1234567890'', app = ''myapp'', task = ''abcdef12'',
       interval = 0\<rparr>"
  let ?m2 = "\<lparr>client = ?cl', id' = ''abcdef1234567890'', app = ''myapp'', task = ''abcdef12'',
       interval = - 2\<rparr>"
  have "extractApp ?c = ''nightly''"
    by (simp add: extractApp_def extractEnv_def HasPrefix_def TrimPrefix_def)
  then have h1: "InspectContainer ?cl ''abcdef'' = Inr ?c \<and> sanitizeForGraphite (extractApp ?c) \<noteq> []
      \<and> 8 \<le> length (ID ?c)"
    by (simp add: sanitizeForGraphite_Nil_iff)
  have r1: "\<exists>m. NewMonitor ?cl ''abcdef'' (- 2) = Return (Inr m) \<and> interval m = - 2"
    using interval_not_validated [of ?cl "''abcdef''" ?c "- 2"] h1 by blast
  have h2: "interval ?m0 = 0 \<and> [10, 11, 12 :: nat] \<noteq> []" by simp
  have r2: "handle_loop ?m0 0 [10, 11, 12 :: nat] = ([], Some IntegerDivideByZero)"
    using interval_not_validated [of _ _ _ _ ?m0 "[10, 11, 12]" 0] h2 by blast
  have s: "sint (- 2 :: go_int) = - 2" by simp
  have h3: "sint (interval ?m2) < 0 \<and> length [10, 11, 12 :: nat] \<le> 2 ^ 63" by (simp add: s)
  have u: "[0..<3] = [0, 1, 2]" by (simp add: upt_rec)
  have "handle_loop ?m2 0 [10, 11, 12 :: nat] =
           (map (\<lambda>j. \<lparr>App = app ?m2, Task = task ?m2, Stats = [10, 11, 12 :: nat] ! j\<rparr>)
              (filter (\<lambda>j. j mod nat (- sint (interval ?m2)) = 0) [0..<length [10, 11, 12 :: nat]]), None)"
    using interval_not_validated [of _ _ _ _ ?m2 "[10, 11, 12]"] h3 by blast
  then have r3: "handle_loop ?m2 0 [10, 11, 12 :: nat]
     = ([\<lparr>App = ''myapp'', Task = ''abcdef12'', Stats = 10\<rparr>,
         \<lparr>App = ''myapp'', Task = ''abcdef12'', Stats = 12\<rparr>], None)"
    by (simp add: s u)
  from r1 r2 r3 show ?thesis by blast
qed

end
